theory Spec2Isabelle
  imports Complex_Main
begin

section \<open>Errors\<close>

text \<open>
  The failures of the attack subsystem, as values. \<open>NotReadyError\<close> is the
  \<^verbatim>\<open>RuntimeError\<close> that \<^verbatim>\<open>BackdoorAttacker.attack\<close> raises when the attacker has not
  been reset; \<open>AttributeError\<close> is what Python raises for \<^verbatim>\<open>None.view(1, -1)\<close>, that is,
  for \<^verbatim>\<open>g\<close> called while no trigger is stored; \<open>ZeroDivisionError\<close> is Python's, for
  a division of numbers by zero, and \<open>ShapeError\<close> is the \<^verbatim>\<open>RuntimeError\<close> of a matrix
  product whose shapes do not fit; \<open>TensorOverflow\<close> is the \<^verbatim>\<open>RuntimeError\<close> of
  \<^verbatim>\<open>torch.LongTensor\<close> given an integer outside the 64-bit range, and \<open>DeviceError\<close> is
  what \<^verbatim>\<open>.to(device)\<close> raises when the tensor cannot be placed on the device. The others
  are the failures the specification names for the budget ledger and for graph edits.
\<close>

datatype error =
    NotReadyError
  | BudgetExceeded
  | EmptyBudget
  | InvalidNodeId
  | DimensionMismatch
  | AttributeError
  | ZeroDivisionError
  | ShapeError
  | TensorOverflow
  | DeviceError

section \<open>Graphs\<close>

text \<open>
  A graph value: the node count, the width of the feature matrix, the feature matrix
  (one row per node) and the set of directed edges.
\<close>

record graph_state =
  node_count :: nat
  feat_dim :: nat
  features :: "real list list"
  edges :: "(nat \<times> nat) set"

text \<open>
  Modelled from the spec: the graph library behind \<^verbatim>\<open>local_var\<close>, \<^verbatim>\<open>add_nodes\<close> and
  \<^verbatim>\<open>add_edges\<close> is not part of the sources. The specification's GraphState contract is
  used for it: \<open>clone\<close> returns an independent copy; \<open>add_node\<close> appends a feature row
  and returns the new node id, failing with \<open>DimensionMismatch\<close> when the row's width is
  not the feature width; \<open>add_edge\<close> and \<open>remove_edge\<close> are no-ops when the edge already
  has the requested presence, and fail with \<open>InvalidNodeId\<close> when an end point is out of
  range.
\<close>

definition clone :: "graph_state \<Rightarrow> graph_state" where
  "clone gr = gr"

definition add_node :: "graph_state \<Rightarrow> real list \<Rightarrow> error + (nat \<times> graph_state)" where
  "add_node gr row =
     (if length row \<noteq> feat_dim gr then Inl DimensionMismatch
      else Inr (node_count gr,
                gr\<lparr>node_count := Suc (node_count gr), features := features gr @ [row]\<rparr>))"

definition add_edge :: "graph_state \<Rightarrow> nat \<Rightarrow> nat \<Rightarrow> error + graph_state" where
  "add_edge gr u v =
     (if node_count gr \<le> u \<or> node_count gr \<le> v then Inl InvalidNodeId
      else Inr (gr\<lparr>edges := insert (u, v) (edges gr)\<rparr>))"

definition remove_edge :: "graph_state \<Rightarrow> nat \<Rightarrow> nat \<Rightarrow> error + graph_state" where
  "remove_edge gr u v =
     (if node_count gr \<le> u \<or> node_count gr \<le> v then Inl InvalidNodeId
      else Inr (gr\<lparr>edges := edges gr - {(u, v)}\<rparr>))"

subsection \<open>Graph objects in a store\<close>

text \<open>
  The attacker holds a reference to a graph object, and \<^verbatim>\<open>g\<close> edits a graph object in
  place. Graph objects live in a store; a reference is an index into it. A Python
  reference always points to an object, so references are read with \<open>!\<close> and every
  theorem about a store asks for the reference to be allocated.
\<close>

type_synonym ref = nat
type_synonym store = "graph_state list"

definition local_var :: "store \<Rightarrow> ref \<Rightarrow> ref \<times> store" where
  "local_var h r = (length h, h @ [clone (h ! r)])"

definition add_nodes :: "store \<Rightarrow> ref \<Rightarrow> real list \<Rightarrow> error + store" where
  "add_nodes h r row =
     (case add_node (h ! r) row of
        Inl e \<Rightarrow> Inl e
      | Inr (i, gr') \<Rightarrow> Inr (h[r := gr']))"

definition add_edges :: "store \<Rightarrow> ref \<Rightarrow> nat \<Rightarrow> nat \<Rightarrow> error + store" where
  "add_edges h r u v =
     (case add_edge (h ! r) u v of
        Inl e \<Rightarrow> Inl e
      | Inr gr' \<Rightarrow> Inr (h[r := gr']))"

section \<open>Budgets\<close>

text \<open>
  \<^verbatim>\<open>num_budgets\<close> is \<^verbatim>\<open>Union[int, float]\<close>: a perturbation count, or a fraction of the
  maximum.
\<close>

datatype budget = Count nat | Fraction rat

text \<open>
  Modelled from the spec: \<^verbatim>\<open>Attacker._check_budget\<close> is defined in the base class, which
  is not part of the sources. Following the specification's budget ledger, a fraction is
  resolved against the maximum to the nearest integer not exceeding it, a resolved budget
  of zero is rejected with \<open>EmptyBudget\<close>, and a request that exceeds the maximum is
  rejected with \<open>BudgetExceeded\<close>. A fraction outside \<open>(0, 1]\<close> is outside the ledger's
  input type; it is resolved like any other, so a non-positive one counts as empty.
\<close>

definition resolve_budget :: "budget \<Rightarrow> nat \<Rightarrow> int" where
  "resolve_budget b max_perturbations =
     (case b of
        Count n \<Rightarrow> int n
      | Fraction f \<Rightarrow> \<lfloor>f * of_nat max_perturbations\<rfloor>)"

definition check_budget :: "budget \<Rightarrow> nat \<Rightarrow> error + nat" where
  "check_budget b max_perturbations =
     (let r = resolve_budget b max_perturbations in
      if int max_perturbations < r then Inl BudgetExceeded
      else if r \<le> 0 then Inl EmptyBudget
      else Inr (nat r))"

section \<open>The backdoor attacker\<close>

text \<open>
  The fields of a \<^verbatim>\<open>BackdoorAttacker\<close> that its methods read or write. \<open>graph\<close>,
  \<open>num_nodes\<close> and \<open>num_feats\<close> are set by the base class's constructor;
  \<open>priv_trigger\<close> is the attribute \<^verbatim>\<open>_trigger\<close>; an attribute that holds \<^verbatim>\<open>None\<close> or
  has not been assigned yet is \<open>None\<close>. Of \<^verbatim>\<open>device\<close>, which no method writes, the
  attacker keeps what \<^verbatim>\<open>attack\<close> depends on: whether a tensor can be placed on it.
\<close>

record backdoor_attacker =
  graph :: ref
  num_nodes :: nat
  num_feats :: nat
  num_budgets :: "nat option"
  priv_trigger :: "real list option"
  targets_class :: "int list option"
  is_reseted :: bool
  device_available :: bool

text \<open>\<^verbatim>\<open>reset\<close> returns \<^verbatim>\<open>self\<close>: the attacker, with the three assignments made.\<close>

definition reset :: "backdoor_attacker \<Rightarrow> backdoor_attacker" where
  "reset s = s\<lparr>num_budgets := None, priv_trigger := None, is_reseted := True\<rparr>"

text \<open>
  \<^verbatim>\<open>torch.LongTensor\<close> holds signed 64-bit integers and raises when given a Python
  integer outside their range; \<^verbatim>\<open>view(-1)\<close> of a one-dimensional tensor is the tensor
  itself; \<^verbatim>\<open>to(device)\<close> raises when the tensor cannot be placed on the device.
\<close>

definition int64 :: "int \<Rightarrow> bool" where
  "int64 x \<longleftrightarrow> - (2 ^ 63) \<le> x \<and> x < 2 ^ 63"

definition LongTensor :: "int list \<Rightarrow> error + int list" where
  "LongTensor xs = (if list_all int64 xs then Inr xs else Inl TensorOverflow)"

definition to_device :: "int list \<Rightarrow> bool \<Rightarrow> error + int list" where
  "to_device x available = (if available then Inr x else Inl DeviceError)"

text \<open>
  \<^verbatim>\<open>attack\<close> either raises or returns \<^verbatim>\<open>self\<close>; the model returns the error, if any,
  together with the attacker as the call leaves it. The statements run in the source's
  order: the readiness check, the budget check, the assignment of \<open>num_budgets\<close>, the
  construction of the class tensor (which may raise, \<open>num_budgets\<close> being assigned
  already), the assignments of \<open>targets_class\<close> and \<open>is_reseted\<close>.
\<close>

definition attack :: "backdoor_attacker \<Rightarrow> budget \<Rightarrow> int \<Rightarrow> error option \<times> backdoor_attacker" where
  "attack s nb tc =
     (if \<not> is_reseted s then (Some NotReadyError, s)
      else case check_budget nb (num_feats s) of
             Inl e \<Rightarrow> (Some e, s)
           | Inr n \<Rightarrow>
              (case LongTensor [tc] of
                 Inl e \<Rightarrow> (Some e, s\<lparr>num_budgets := Some n\<rparr>)
               | Inr x \<Rightarrow>
                  (case to_device x (device_available s) of
                     Inl e \<Rightarrow> (Some e, s\<lparr>num_budgets := Some n\<rparr>)
                   | Inr y \<Rightarrow>
                      (None, s\<lparr>num_budgets := Some n,
                               targets_class := Some y,
                               is_reseted := False\<rparr>))))"

definition trigger :: "backdoor_attacker \<Rightarrow> real list option" where
  "trigger s = priv_trigger s"

text \<open>
  \<^verbatim>\<open>g\<close> returns the attacked graph, a reference to a new graph object, or raises; the
  model returns the store as the call leaves it as well.
\<close>

definition g :: "store \<Rightarrow> backdoor_attacker \<Rightarrow> nat \<Rightarrow> bool \<Rightarrow> (error + ref) \<times> store" where
  "g h s target_node symmetric =
     (case local_var h (graph s) of (gr, h1) \<Rightarrow>
     (case trigger s of
        None \<Rightarrow> (Inl AttributeError, h1)
      | Some data \<Rightarrow>
         (case add_nodes h1 gr data of
            Inl e \<Rightarrow> (Inl e, h1)
          | Inr h2 \<Rightarrow>
             (case add_edges h2 gr (num_nodes s) target_node of
                Inl e \<Rightarrow> (Inl e, h2)
              | Inr h3 \<Rightarrow>
                 (case (if symmetric then add_edges h3 gr target_node (num_nodes s)
                        else Inr h3) of
                    Inl e \<Rightarrow> (Inl e, h3)
                  | Inr h4 \<Rightarrow>
                     (case add_edges h4 gr (num_nodes s) (num_nodes s) of
                        Inl e \<Rightarrow> (Inl e, h4)
                      | Inr h5 \<Rightarrow> (Inr gr, h5)))))))"

text \<open>
  The attacker is well-formed in a store when its graph reference is allocated and its
  cached \<open>num_nodes\<close> and \<open>num_feats\<close> are those of the graph, as the constructor
  leaves them.
\<close>

definition attacker_ok :: "store \<Rightarrow> backdoor_attacker \<Rightarrow> bool" where
  "attacker_ok h s \<longleftrightarrow>
     graph s < length h \<and>
     node_count (h ! graph s) = num_nodes s \<and>
     feat_dim (h ! graph s) = num_feats s \<and>
     length (features (h ! graph s)) = num_nodes s \<and>
     (\<forall>(u, v) \<in> edges (h ! graph s). u < num_nodes s \<and> v < num_nodes s)"

subsection \<open>Call sequences\<close>

datatype call = CallReset | CallAttack budget int | CallG nat bool

text \<open>One call: its outcome (the error raised, if any), the store and the attacker after it.\<close>

definition step :: "store \<times> backdoor_attacker \<Rightarrow> call \<Rightarrow> error option \<times> store \<times> backdoor_attacker" where
  "step cfg c =
     (case cfg of (h, s) \<Rightarrow>
     (case c of
        CallReset \<Rightarrow> (None, h, reset s)
      | CallAttack nb tc \<Rightarrow> (case attack s nb tc of (r, s') \<Rightarrow> (r, h, s'))
      | CallG target_node symmetric \<Rightarrow>
          (case g h s target_node symmetric of
             (Inl e, h') \<Rightarrow> (Some e, h', s)
           | (Inr r, h') \<Rightarrow> (None, h', s))))"

text \<open>
  A caller may catch an error and go on calling, so a sequence runs to its end; the
  outcomes are collected in call order.
\<close>

fun run :: "store \<times> backdoor_attacker \<Rightarrow> call list \<Rightarrow> error option list \<times> store \<times> backdoor_attacker" where
  "run cfg [] = ([], cfg)"
| "run cfg (c # cs) =
     (case step cfg c of (r, cfg') \<Rightarrow>
     (case run cfg' cs of (rs, cfg'') \<Rightarrow> (r # rs, cfg'')))"

subsection \<open>A small attacker\<close>

text \<open>
  A three-node path graph with two features per node, and an attacker on it as the
  constructor leaves it: nothing bound yet, not reset.
\<close>

definition example_graph :: graph_state where
  "example_graph =
     \<lparr>node_count = 3, feat_dim = 2, features = [[1, 0], [0, 1], [1, 1]],
      edges = {(0, 1), (1, 0), (1, 2), (2, 1)}\<rparr>"

definition example_attacker :: backdoor_attacker where
  "example_attacker =
     \<lparr>graph = 0, num_nodes = 3, num_feats = 2, num_budgets = None,
      priv_trigger = None, targets_class = None, is_reseted = False,
      device_available = True\<rparr>"

text \<open>
  The same attacker after an attack, with the trigger that the trigger optimisation of a
  subclass has stored.
\<close>

definition armed_attacker :: backdoor_attacker where
  "armed_attacker =
     \<lparr>graph = 0, num_nodes = 3, num_feats = 2, num_budgets = Some 2,
      priv_trigger = Some [0, 1], targets_class = Some [1], is_reseted = False,
      device_available = True\<rparr>"

text \<open>A call sequence with two attacks, a reset between them.\<close>

definition example_calls :: "call list" where
  "example_calls = [CallReset, CallAttack (Count 2) 1, CallG 1 True, CallReset, CallAttack (Count 1) 0]"

section \<open>The targeted structure attacker\<close>

text \<open>
  Modelled from the spec: the targeted attacker (\<^verbatim>\<open>GFAttack\<close>) is only called by the
  example script \<^verbatim>\<open>examples/attack/targeted/gf_attack.py\<close>; the class and its base are
  not part of the sources. What follows is the specification's budget ledger, attack
  session and targeted algorithm. The influence score of a candidate comes from a
  truncated spectral decomposition, which is numerical work outside this model: the
  score is a parameter, and only its order is used.
\<close>

record ledger =
  max_budget :: nat
  spent :: nat

definition reserve :: "ledger \<Rightarrow> nat \<Rightarrow> error + ledger" where
  "reserve l n =
     (if max_budget l < spent l + n then Inl BudgetExceeded
      else Inr (l\<lparr>spent := spent l + n\<rparr>))"

datatype status = Unreset | Ready | InProgress | Done

record attack_session =
  original :: graph_state
  working :: graph_state
  budget_ledger :: ledger
  status :: status
  flips :: "(nat \<times> nat) list"

text \<open>\<open>reset\<close> of the base protocol: clone the input graph, zero the ledger, become ready.\<close>

definition targeted_reset :: "attack_session \<Rightarrow> attack_session" where
  "targeted_reset s =
     s\<lparr>working := clone (original s),
       budget_ledger := \<lparr>max_budget = 0, spent = 0\<rparr>,
       status := Ready,
       flips := []\<rparr>"

text \<open>
  The candidates for target \<open>t\<close> are the edges \<open>(t, v)\<close> with \<open>v\<close> a node other than
  \<open>t\<close> (no self-loops). Each is eligible for exactly one flip: removal when the edge is
  present, addition when it is absent.
\<close>

definition candidates :: "graph_state \<Rightarrow> nat \<Rightarrow> nat list" where
  "candidates gr t = filter (\<lambda>v. v \<noteq> t) [0..<node_count gr]"

definition eligible_count :: "graph_state \<Rightarrow> nat \<Rightarrow> nat" where
  "eligible_count gr t = length (candidates gr t)"

definition flip :: "graph_state \<Rightarrow> nat \<Rightarrow> nat \<Rightarrow> error + graph_state" where
  "flip gr u v = (if (u, v) \<in> edges gr then remove_edge gr u v else add_edge gr u v)"

text \<open>Ranking: by score, highest first; equal scores by lower node id.\<close>

definition ranks_before :: "(nat \<Rightarrow> real) \<Rightarrow> nat \<Rightarrow> nat \<Rightarrow> bool" where
  "ranks_before score a b \<longleftrightarrow> score b < score a \<or> (score a = score b \<and> a \<le> b)"

fun insert_ranked :: "(nat \<Rightarrow> real) \<Rightarrow> nat \<Rightarrow> nat list \<Rightarrow> nat list" where
  "insert_ranked score v [] = [v]"
| "insert_ranked score v (w # ws) =
     (if ranks_before score v w then v # w # ws else w # insert_ranked score v ws)"

fun rank :: "(nat \<Rightarrow> real) \<Rightarrow> nat list \<Rightarrow> nat list" where
  "rank score [] = []"
| "rank score (v # vs) = insert_ranked score v (rank score vs)"

text \<open>
  The greedy loop over the chosen candidates: reserve one unit, then flip. A ledger that
  rejects ends the loop without an error.
\<close>

fun commit :: "nat \<Rightarrow> attack_session \<Rightarrow> nat list \<Rightarrow> error option \<times> attack_session" where
  "commit t s [] = (None, s)"
| "commit t s (v # vs) =
     (case reserve (budget_ledger s) 1 of
        Inl e \<Rightarrow> (None, s)
      | Inr l' \<Rightarrow>
         (case flip (working s) t v of
            Inl e \<Rightarrow> (Some e, s)
          | Inr gr' \<Rightarrow>
              commit t (s\<lparr>working := gr', budget_ledger := l',
                          flips := flips s @ [(t, v)]\<rparr>) vs))"

definition targeted_attack ::
  "attack_session \<Rightarrow> nat \<Rightarrow> nat \<Rightarrow> (nat \<Rightarrow> real) \<Rightarrow> error option \<times> attack_session" where
  "targeted_attack s t B score =
     (if status s \<noteq> Ready then (Some NotReadyError, s)
      else if B = 0 then (Some EmptyBudget, s)
      else if node_count (working s) \<le> t then (Some InvalidNodeId, s)
      else
        (case commit t (s\<lparr>budget_ledger := \<lparr>max_budget = B, spent = 0\<rparr>, status := InProgress\<rparr>)
                (take B (rank score (candidates (working s) t))) of
           (Some e, s') \<Rightarrow> (Some e, s')
         | (None, s') \<Rightarrow> (None, s'\<lparr>status := Done\<rparr>)))"

text \<open>The edges in which two graphs differ.\<close>

definition edge_diff :: "graph_state \<Rightarrow> graph_state \<Rightarrow> (nat \<times> nat) set" where
  "edge_diff gr gr' = (edges gr - edges gr') \<union> (edges gr' - edges gr)"

text \<open>A session on the three-node path graph, before its first reset.\<close>

definition example_session :: attack_session where
  "example_session =
     \<lparr>original = example_graph, working = example_graph,
      budget_ledger = \<lparr>max_budget = 0, spent = 0\<rparr>, status = Unreset, flips = []\<rparr>"

section \<open>Centered kernel alignment\<close>

text \<open>
  A two-dimensional tensor: its shape and its entries. Entries are idealised as reals;
  rounding is not modelled.
\<close>

record tensor =
  nrows :: nat
  ncols :: nat
  entry :: "nat \<Rightarrow> nat \<Rightarrow> real"

definition ones :: "nat \<Rightarrow> nat \<Rightarrow> tensor" where
  "ones n m = \<lparr>nrows = n, ncols = m, entry = (\<lambda>i j. 1)\<rparr>"

definition tensor_t :: "tensor \<Rightarrow> tensor" where
  "tensor_t A = \<lparr>nrows = ncols A, ncols = nrows A, entry = (\<lambda>i j. entry A j i)\<rparr>"

text \<open>The product \<^verbatim>\<open>A @ B\<close>, for shapes that fit (\<open>ncols A = nrows B\<close>).\<close>

definition matmul :: "tensor \<Rightarrow> tensor \<Rightarrow> tensor" where
  "matmul A B =
     \<lparr>nrows = nrows A, ncols = ncols B,
      entry = (\<lambda>i j. \<Sum>k \<leftarrow> [0..<ncols A]. entry A i k * entry B k j)\<rparr>"

definition trace :: "tensor \<Rightarrow> real" where
  "trace A = (\<Sum>i \<leftarrow> [0..<min (nrows A) (ncols A)]. entry A i i)"

definition item :: "tensor \<Rightarrow> real" where
  "item A = entry A 0 0"

definition fill_diagonal :: "tensor \<Rightarrow> real \<Rightarrow> tensor" where
  "fill_diagonal A x = A\<lparr>entry := (\<lambda>i j. if i = j then x else entry A i j)\<rparr>"

text \<open>
  A floating-point result is a finite number, or it is not (an infinity or a NaN). What
  is not finite stays so under the sums and products taken here. Dividing a tensor by
  the Python integer zero raises nothing: it gives an infinity or a NaN.
\<close>

datatype pyfloat = Finite real | NonFinite

fun fadd :: "pyfloat \<Rightarrow> pyfloat \<Rightarrow> pyfloat" where
  "fadd (Finite x) (Finite y) = Finite (x + y)"
| "fadd _ _ = NonFinite"

fun fsub :: "pyfloat \<Rightarrow> pyfloat \<Rightarrow> pyfloat" where
  "fsub (Finite x) (Finite y) = Finite (x - y)"
| "fsub _ _ = NonFinite"

fun fmul :: "pyfloat \<Rightarrow> pyfloat \<Rightarrow> pyfloat" where
  "fmul (Finite x) (Finite y) = Finite (x * y)"
| "fmul _ _ = NonFinite"

definition tensor_div :: "real \<Rightarrow> int \<Rightarrow> pyfloat" where
  "tensor_div x d = (if d = 0 then NonFinite else Finite (x / of_int d))"

text \<open>The three denominators of \<^verbatim>\<open>CKA._HSIC\<close>, in the order the code divides by them.\<close>

definition hsic_den1 :: "nat \<Rightarrow> int" where
  "hsic_den1 N = (int N - 1) * (int N - 2)"

definition hsic_den2 :: "nat \<Rightarrow> int" where
  "hsic_den2 N = int N - 2"

definition hsic_den3 :: "nat \<Rightarrow> int" where
  "hsic_den3 N = int N * (int N - 3)"

text \<open>
  \<^verbatim>\<open>CKA._HSIC\<close>. \<open>N\<close> is \<^verbatim>\<open>K.shape[0]\<close>. The matrix products of the body go through
  exactly when \<open>K\<close> and \<open>L\<close> are both \<open>N \<times> N\<close>, which is checked first here. The first
  two divisions divide a tensor; the last, \<^verbatim>\<open>1 / (N * (N - 3))\<close>, divides Python
  integers and raises on zero.
\<close>

definition HSIC :: "tensor \<Rightarrow> tensor \<Rightarrow> error + pyfloat" where
  "HSIC K L =
     (let N = nrows K in
      if ncols K \<noteq> N \<or> nrows L \<noteq> N \<or> ncols L \<noteq> N then Inl ShapeError
      else
        let ones1 = ones N 1;
            result0 = Finite (trace (matmul K L));
            result1 = fadd result0
              (tensor_div
                 (item (matmul (matmul (matmul (matmul (matmul (tensor_t ones1) K) ones1) (tensor_t ones1)) L) ones1))
                 (hsic_den1 N));
            result2 = fsub result1
              (tensor_div (item (matmul (matmul (matmul (tensor_t ones1) K) L) ones1) * 2) (hsic_den2 N))
        in if hsic_den3 N = 0 then Inl ZeroDivisionError
           else Inr (fmul (Finite (1 / of_int (hsic_den3 N))) result2))"

text \<open>
  What \<^verbatim>\<open>CKA.compare\<close> computes first for a recorded feature batch \<open>X\<close> (one row per
  sample): the kernel \<^verbatim>\<open>X @ X.t()\<close> with its diagonal zeroed, and its HSIC with itself.
\<close>

definition kernel :: "tensor \<Rightarrow> tensor" where
  "kernel X = fill_diagonal (matmul X (tensor_t X)) 0"

definition compare_self :: "tensor \<Rightarrow> error + pyfloat" where
  "compare_self X = HSIC (kernel X) (kernel X)"

text \<open>Feature batches of four, three and two samples, two features each.\<close>

definition example_features :: "nat \<Rightarrow> tensor" where
  "example_features n = \<lparr>nrows = n, ncols = 2, entry = (\<lambda>i j. real (i + j))\<rparr>"

section \<open>Properties of the backdoor attacker\<close>

lemma reset_fields:
  "num_budgets (reset s) = None" "priv_trigger (reset s) = None" "is_reseted (reset s)"
  "graph (reset s) = graph s" "num_nodes (reset s) = num_nodes s"
  "num_feats (reset s) = num_feats s" "targets_class (reset s) = targets_class s"
  by (simp_all add: reset_def)

lemma attack_not_reseted: "\<not> is_reseted s \<Longrightarrow> attack s nb tc = (Some NotReadyError, s)"
  by (simp add: attack_def)

lemma attack_rejected: "is_reseted s \<Longrightarrow> check_budget nb (num_feats s) = Inl e \<Longrightarrow> attack s nb tc = (Some e, s)"
  by (simp add: attack_def)

lemma attack_accepted:
  "is_reseted s \<Longrightarrow> check_budget nb (num_feats s) = Inr n \<Longrightarrow> int64 tc \<Longrightarrow>
   device_available s \<Longrightarrow>
   attack s nb tc =
     (None, s\<lparr>num_budgets := Some n, targets_class := Some [tc], is_reseted := False\<rparr>)"
  by (simp add: attack_def LongTensor_def to_device_def)

lemma attack_tensor_fails:
  "is_reseted s \<Longrightarrow> check_budget nb (num_feats s) = Inr n \<Longrightarrow>
   \<not> (int64 tc \<and> device_available s) \<Longrightarrow>
   attack s nb tc =
     (Some (if int64 tc then DeviceError else TensorOverflow), s\<lparr>num_budgets := Some n\<rparr>)"
  by (simp add: attack_def LongTensor_def to_device_def)

lemma attack_cases:
  "attack s nb tc = (Some NotReadyError, s) \<and> \<not> is_reseted s \<or>
   (\<exists>e. attack s nb tc = (Some e, s) \<and> is_reseted s \<and> check_budget nb (num_feats s) = Inl e) \<or>
   (\<exists>n e. attack s nb tc = (Some e, s\<lparr>num_budgets := Some n\<rparr>) \<and> is_reseted s \<and>
        check_budget nb (num_feats s) = Inr n \<and> (e = TensorOverflow \<or> e = DeviceError)) \<or>
   (\<exists>n. attack s nb tc =
          (None, s\<lparr>num_budgets := Some n, targets_class := Some [tc], is_reseted := False\<rparr>) \<and>
        is_reseted s \<and> check_budget nb (num_feats s) = Inr n \<and> int64 tc \<and> device_available s)"
  by (cases "check_budget nb (num_feats s)")
     (simp_all add: attack_def LongTensor_def to_device_def)

lemma check_budget_errors:
  "check_budget nb m = Inl e \<Longrightarrow> e = BudgetExceeded \<or> e = EmptyBudget"
  by (auto simp: check_budget_def Let_def split: if_splits)

lemma check_budget_bounds: "check_budget nb m = Inr n \<Longrightarrow> 0 < n \<and> n \<le> m"
  by (auto simp: check_budget_def Let_def split: if_splits)

lemma example_attack_ok:
  "attack (reset example_attacker) (Count 2) 1 =
     (None, example_attacker\<lparr>num_budgets := Some 2, priv_trigger := None,
                              targets_class := Some [1], is_reseted := False\<rparr>)"
  by (simp add: attack_def reset_def example_attacker_def check_budget_def resolve_budget_def
        LongTensor_def to_device_def int64_def)

text \<open>
  C2: an attacker that is not reset (\<open>is_reseted\<close> is false, as after construction or
  after an attack that went through) rejects \<open>attack\<close> with \<open>NotReadyError\<close>, and the
  call leaves every field of the attacker as it was.
\<close>

theorem attack_unreset_not_ready:
  assumes "\<not> is_reseted s"
  shows "fst (attack s nb tc) = Some NotReadyError \<and> snd (attack s nb tc) = s"
  using assms by (simp add: attack_not_reseted)

theorem attack_unreset_not_ready_witness:
  "\<not> is_reseted example_attacker \<and>
   fst (attack example_attacker (Count 1) 0) = Some NotReadyError \<and>
   snd (attack example_attacker (Count 1) 0) = example_attacker"
proof -
  have h: "\<not> is_reseted example_attacker"
    by (simp add: example_attacker_def)
  from attack_unreset_not_ready [OF h, of "Count 1" 0] h show ?thesis
    by simp
qed

text \<open>
  C3: on a reset attacker, \<open>attack\<close> with a budget that exceeds the feature
  dimensionality \<open>num_feats\<close> fails with \<open>BudgetExceeded\<close>. The requested budget is
  the resolved one: the count itself, or the fraction taken of \<open>num_feats\<close>. So a
  count above \<open>num_feats\<close> is rejected, and so is a fraction whose share of
  \<open>num_feats\<close> is above it by one or more.
\<close>

theorem attack_budget_exceeded:
  assumes "is_reseted s"
  shows "(int (num_feats s) < resolve_budget nb (num_feats s) \<longrightarrow>
            attack s nb tc = (Some BudgetExceeded, s)) \<and>
         (num_feats s < n \<longrightarrow> attack s (Count n) tc = (Some BudgetExceeded, s)) \<and>
         (of_nat (num_feats s) + 1 \<le> f * of_nat (num_feats s) \<longrightarrow>
            attack s (Fraction f) tc = (Some BudgetExceeded, s))"
proof (intro conjI impI)
  assume "int (num_feats s) < resolve_budget nb (num_feats s)"
  with assms show "attack s nb tc = (Some BudgetExceeded, s)"
    by (simp add: attack_def check_budget_def Let_def)
next
  assume "num_feats s < n"
  with assms show "attack s (Count n) tc = (Some BudgetExceeded, s)"
    by (simp add: attack_def check_budget_def resolve_budget_def Let_def)
next
  assume "of_nat (num_feats s) + 1 \<le> f * of_nat (num_feats s)"
  then have "int (num_feats s) + 1 \<le> \<lfloor>f * of_nat (num_feats s)\<rfloor>"
    by (simp add: le_floor_iff)
  with assms show "attack s (Fraction f) tc = (Some BudgetExceeded, s)"
    by (simp add: attack_def check_budget_def resolve_budget_def Let_def)
qed

theorem attack_budget_exceeded_witness:
  "is_reseted (reset example_attacker) \<and>
   num_feats (reset example_attacker) < 3 \<and>
   attack (reset example_attacker) (Count 3) 1 = (Some BudgetExceeded, reset example_attacker) \<and>
   fst (attack (reset example_attacker) (Fraction 2) 1) = Some BudgetExceeded"
proof -
  have h1: "is_reseted (reset example_attacker)"
    by (simp add: reset_def)
  have h2: "num_feats (reset example_attacker) < 3"
    by (simp add: reset_def example_attacker_def)
  have h3: "of_nat (num_feats (reset example_attacker)) + 1 \<le> (2::rat) * of_nat (num_feats (reset example_attacker))"
    by (simp add: reset_def example_attacker_def)
  from attack_budget_exceeded [OF h1, of "Count 3" 1 3 2] h1 h2 h3 show ?thesis
    by simp
qed

text \<open>
  C5: \<open>attack\<close> is atomic on rejection by its validation. Whenever the call raises
  \<open>NotReadyError\<close> (the readiness check) or a budget error (\<open>BudgetExceeded\<close>, or
  \<open>EmptyBudget\<close>, from the budget check), the attacker is left as it was:
  \<open>num_budgets\<close>, the trigger, \<open>targets_class\<close> and \<open>is_reseted\<close> keep their values.
  Both checks come before the first assignment.
\<close>

theorem attack_atomic_on_rejection:
  assumes "fst (attack s nb tc) = Some e"
    and "e = NotReadyError \<or> e = BudgetExceeded \<or> e = EmptyBudget"
  shows "snd (attack s nb tc) = s \<and>
         num_budgets (snd (attack s nb tc)) = num_budgets s \<and>
         priv_trigger (snd (attack s nb tc)) = priv_trigger s \<and>
         targets_class (snd (attack s nb tc)) = targets_class s \<and>
         is_reseted (snd (attack s nb tc)) = is_reseted s"
  using assms attack_cases [of s nb tc] by auto

theorem attack_atomic_on_rejection_witness:
  "fst (attack (reset example_attacker) (Count 3) 1) = Some BudgetExceeded \<and>
   snd (attack (reset example_attacker) (Count 3) 1) = reset example_attacker \<and>
   fst (attack example_attacker (Count 1) 1) = Some NotReadyError \<and>
   snd (attack example_attacker (Count 1) 1) = example_attacker"
proof -
  have h1: "fst (attack (reset example_attacker) (Count 3) 1) = Some BudgetExceeded"
    by (simp add: attack_def reset_def example_attacker_def check_budget_def resolve_budget_def)
  have h2: "fst (attack example_attacker (Count 1) 1) = Some NotReadyError"
    by (simp add: attack_def example_attacker_def)
  from attack_atomic_on_rejection [OF h1] attack_atomic_on_rejection [OF h2] h1 h2
  show ?thesis by simp
qed

text \<open>
  Not every raise of \<open>attack\<close> leaves the attacker as it was. A class outside the
  64-bit range passes the readiness check and the budget check, \<open>num_budgets\<close> is assigned, and
  only then does the construction of the class tensor raise: the call fails with
  \<open>num_budgets\<close> changed from \<open>None\<close> to the validated budget.
\<close>

theorem attack_not_atomic_counterexample:
  "fst (attack (reset example_attacker) (Count 2) (2 ^ 63)) = Some TensorOverflow \<and>
   num_budgets (reset example_attacker) = None \<and>
   num_budgets (snd (attack (reset example_attacker) (Count 2) (2 ^ 63))) = Some 2 \<and>
   snd (attack (reset example_attacker) (Count 2) (2 ^ 63)) \<noteq> reset example_attacker"
proof -
  have a: "attack (reset example_attacker) (Count 2) (2 ^ 63) =
             (Some TensorOverflow, (reset example_attacker)\<lparr>num_budgets := Some 2\<rparr>)"
    by (simp add: attack_def reset_def example_attacker_def check_budget_def resolve_budget_def
          LongTensor_def int64_def)
  have b: "num_budgets (reset example_attacker) = None"
    by (simp add: reset_def)
  have c: "(reset example_attacker)\<lparr>num_budgets := Some 2\<rparr> \<noteq> reset example_attacker"
  proof
    assume "(reset example_attacker)\<lparr>num_budgets := Some 2\<rparr> = reset example_attacker"
    then have "num_budgets ((reset example_attacker)\<lparr>num_budgets := Some 2\<rparr>) =
               num_budgets (reset example_attacker)"
      by (rule arg_cong)
    with b show False by simp
  qed
  from a b c show ?thesis by simp
qed

text \<open>
  What a failure of the tensor construction leaves behind: the validated budget in
  \<open>num_budgets\<close>, everything else as before, the attacker still ready.
\<close>

lemma attack_tensor_failure_state:
  assumes "fst (attack s nb tc) = Some e" and "e = TensorOverflow \<or> e = DeviceError"
  shows "\<exists>n. check_budget nb (num_feats s) = Inr n \<and>
             snd (attack s nb tc) = s\<lparr>num_budgets := Some n\<rparr>"
  using assms attack_cases [of s nb tc] by (auto dest: check_budget_errors)

text \<open>
  C7: \<open>reset\<close> sets \<open>num_budgets\<close> to \<open>None\<close>, clears the stored trigger, makes the
  attacker ready (\<open>is_reseted\<close>), and returns the attacker itself: every other field of
  what it returns is the attacker's own.
\<close>

theorem reset_clears:
  "num_budgets (reset s) = None \<and> trigger (reset s) = None \<and> is_reseted (reset s) \<and>
   reset s = s\<lparr>num_budgets := None, priv_trigger := None, is_reseted := True\<rparr> \<and>
   graph (reset s) = graph s \<and> num_nodes (reset s) = num_nodes s \<and>
   num_feats (reset s) = num_feats s \<and> targets_class (reset s) = targets_class s"
  by (simp add: reset_def trigger_def)

text \<open>
  C8: on a reset attacker, an \<open>attack\<close> that goes through stores the validated budget
  (what the budget check returned, positive and at most \<open>num_feats\<close>) in
  \<open>num_budgets\<close>, binds \<open>targets_class\<close> as the one-element tensor of the given class,
  and leaves the attacker no longer ready; nothing else changes.
\<close>

theorem attack_binds:
  assumes "is_reseted s"
    and "fst (attack s nb tc) = None"
  shows "\<exists>n. check_budget nb (num_feats s) = Inr n \<and> 0 < n \<and> n \<le> num_feats s \<and>
             num_budgets (snd (attack s nb tc)) = Some n \<and>
             targets_class (snd (attack s nb tc)) = Some [tc] \<and>
             \<not> is_reseted (snd (attack s nb tc)) \<and>
             snd (attack s nb tc) =
               s\<lparr>num_budgets := Some n, targets_class := Some [tc], is_reseted := False\<rparr>"
  using assms attack_cases [of s nb tc] by (auto dest: check_budget_bounds)

theorem attack_binds_witness:
  "is_reseted (reset example_attacker) \<and>
   fst (attack (reset example_attacker) (Count 2) 1) = None \<and>
   (\<exists>n. check_budget (Count 2) (num_feats (reset example_attacker)) = Inr n \<and> 0 < n \<and>
        n \<le> num_feats (reset example_attacker) \<and>
        num_budgets (snd (attack (reset example_attacker) (Count 2) 1)) = Some n \<and>
        targets_class (snd (attack (reset example_attacker) (Count 2) 1)) = Some [1] \<and>
        \<not> is_reseted (snd (attack (reset example_attacker) (Count 2) 1)))"
proof -
  have h1: "is_reseted (reset example_attacker)"
    by (simp add: reset_def)
  have h2: "fst (attack (reset example_attacker) (Count 2) 1) = None"
    by (simp add: example_attack_ok)
  from attack_binds [OF h1 h2] h1 h2 show ?thesis
    by blast
qed

subsection \<open>The attacked graph\<close>

lemma add_nodes_Inr:
  "add_nodes h r row = Inr h' \<longleftrightarrow>
     length row = feat_dim (h ! r) \<and>
     h' = h[r := (h ! r)\<lparr>node_count := Suc (node_count (h ! r)),
                         features := features (h ! r) @ [row]\<rparr>]"
  by (auto simp: add_nodes_def add_node_def)

lemma add_edges_Inr:
  "add_edges h r u v = Inr h' \<longleftrightarrow>
     u < node_count (h ! r) \<and> v < node_count (h ! r) \<and>
     h' = h[r := (h ! r)\<lparr>edges := insert (u, v) (edges (h ! r))\<rparr>]"
  by (auto simp: add_edges_def add_edge_def)

lemma add_nodes_frame:
  "add_nodes h r row = Inr h' \<Longrightarrow> length h' = length h \<and> take r h' = take r h"
  by (auto simp: add_nodes_Inr)

lemma add_edges_frame:
  "add_edges h r u v = Inr h' \<Longrightarrow> length h' = length h \<and> take r h' = take r h"
  by (auto simp: add_edges_Inr)

lemma g_frame:
  assumes "g h s target_node symmetric = (res, h')"
  shows "length h' = Suc (length h) \<and> take (length h) h' = h"
  using assms
  by (auto simp: g_def local_var_def split: option.splits sum.splits if_splits
           dest!: add_nodes_frame add_edges_frame)

lemma step_frame:
  assumes "step (h, s) c = (res, h', s')"
  shows "graph s' = graph s \<and> length h \<le> length h' \<and> take (length h) h' = h"
proof (cases c)
  case CallReset
  with assms show ?thesis by (auto simp: step_def reset_def)
next
  case (CallAttack nb tc)
  with assms attack_cases [of s nb tc] show ?thesis
    by (auto simp: step_def)
next
  case (CallG t symm)
  obtain r0 h0 where gg: "g h s t symm = (r0, h0)" by (cases "g h s t symm")
  from g_frame [OF gg] gg CallG assms show ?thesis
    by (auto simp: step_def split: sum.splits)
qed

lemma run_frame:
  assumes "run (h, s) cs = (rs, h', s')"
  shows "graph s' = graph s \<and> length h \<le> length h' \<and> take (length h) h' = h"
  using assms
proof (induction cs arbitrary: h s rs)
  case Nil
  then show ?case by simp
next
  case (Cons c cs)
  obtain r1 h1 s1 where st: "step (h, s) c = (r1, h1, s1)" by (cases "step (h, s) c")
  obtain rs2 h2 s2 where rn: "run (h1, s1) cs = (rs2, h2, s2)" by (cases "run (h1, s1) cs")
  from Cons.prems st rn have rn': "run (h1, s1) cs = (rs2, h', s')" by simp
  from step_frame [OF st] have f1: "graph s1 = graph s" "length h \<le> length h1" "take (length h) h1 = h"
    by simp_all
  from Cons.IH [OF rn'] have f2: "graph s' = graph s1" "length h1 \<le> length h'" "take (length h1) h' = h1"
    by simp_all
  have "take (length h) h' = take (length h) (take (length h1) h')"
    using f1(2) by (simp add: min_def)
  with f1 f2 show ?case by simp
qed

lemma g_result:
  assumes ok: "attacker_ok h s"
    and tr: "trigger s = Some t"
    and len: "length t = num_feats s"
    and tn: "target_node < num_nodes s"
  shows "g h s target_node symmetric =
           (Inr (length h),
            h @ [(h ! graph s)\<lparr>node_count := Suc (num_nodes s),
                               features := features (h ! graph s) @ [t],
                               edges := edges (h ! graph s) \<union>
                                 {(num_nodes s, target_node), (num_nodes s, num_nodes s)} \<union>
                                 (if symmetric then {(target_node, num_nodes s)} else {})\<rparr>])"
  using assms
  by (auto simp: g_def local_var_def clone_def attacker_ok_def add_nodes_def add_node_def
        add_edges_def add_edge_def nth_append insert_commute)

text \<open>
  C1: with a trigger of the feature dimension stored (as after an attack), \<open>g\<close> on a
  node of the graph returns a new graph object with \<open>num_nodes + 1\<close> nodes. The new
  node, with id \<open>num_nodes\<close>, carries the trigger as its feature row; the graph has the
  edge from the new node to the target, the mirrored edge exactly when \<open>symmetric\<close>
  holds, and the self-loop on the new node; the rows and edges of the input graph are
  kept.
\<close>

theorem g_splices_trigger_node:
  assumes "attacker_ok h s"
    and "trigger s = Some t"
    and "length t = num_feats s"
    and "target_node < num_nodes s"
  shows "\<exists>r h'. g h s target_node symmetric = (Inr r, h') \<and> r < length h' \<and> r \<noteq> graph s \<and>
           node_count (h' ! r) = num_nodes s + 1 \<and>
           features (h' ! r) = features (h ! graph s) @ [t] \<and>
           features (h' ! r) ! num_nodes s = t \<and>
           (num_nodes s, target_node) \<in> edges (h' ! r) \<and>
           ((target_node, num_nodes s) \<in> edges (h' ! r) \<longleftrightarrow> symmetric) \<and>
           (num_nodes s, num_nodes s) \<in> edges (h' ! r) \<and>
           edges (h' ! r) =
             edges (h ! graph s) \<union> {(num_nodes s, target_node), (num_nodes s, num_nodes s)} \<union>
             (if symmetric then {(target_node, num_nodes s)} else {})"
proof -
  have a: "graph s < length h" and b: "length (features (h ! graph s)) = num_nodes s"
    and c: "(target_node, num_nodes s) \<notin> edges (h ! graph s)"
    using assms(1) by (auto simp: attacker_ok_def)
  show ?thesis
    using a b c assms(4) by (auto simp: g_result [OF assms] nth_append)
qed

theorem g_splices_trigger_node_witness:
  "attacker_ok [example_graph] armed_attacker \<and>
   trigger armed_attacker = Some [0, 1] \<and>
   length [0, 1 :: real] = num_feats armed_attacker \<and>
   1 < num_nodes armed_attacker \<and>
   (\<exists>r h'. g [example_graph] armed_attacker 1 True = (Inr r, h') \<and>
      node_count (h' ! r) = 4 \<and> features (h' ! r) ! 3 = [0, 1] \<and>
      (3, 1) \<in> edges (h' ! r) \<and> (1, 3) \<in> edges (h' ! r) \<and> (3, 3) \<in> edges (h' ! r))"
proof -
  have h1: "attacker_ok [example_graph] armed_attacker"
    by (simp add: attacker_ok_def example_graph_def armed_attacker_def)
  have h2: "trigger armed_attacker = Some [0, 1]"
    by (simp add: trigger_def armed_attacker_def)
  have h3: "length [0, 1 :: real] = num_feats armed_attacker"
    by (simp add: armed_attacker_def)
  have h4: "1 < num_nodes armed_attacker"
    by (simp add: armed_attacker_def)
  have n: "num_nodes armed_attacker = 3"
    by (simp add: armed_attacker_def)
  from g_splices_trigger_node [OF h1 h2 h3 h4, of True] obtain r h' where
    "g [example_graph] armed_attacker 1 True = (Inr r, h')"
    "node_count (h' ! r) = 4" "features (h' ! r) ! 3 = [0, 1]"
    "(3, 1) \<in> edges (h' ! r)" "(1, 3) \<in> edges (h' ! r)" "(3, 3) \<in> edges (h' ! r)"
    unfolding n by auto
  with h1 h2 h3 h4 show ?thesis by blast
qed

text \<open>
  C4: the input graph is never mutated. Along every sequence of \<open>reset\<close>, \<open>attack\<close>
  and \<open>g\<close> calls, whatever their outcomes, the attacker keeps its graph reference and
  the graph object it points to is equal to the one before the calls (node count, edges,
  features); in fact every object of the initial store is unchanged, \<open>g\<close> writing only
  to the copy it allocates.
\<close>

theorem original_graph_never_mutated:
  assumes "graph s < length h"
  shows "graph (snd (snd (run (h, s) cs))) = graph s \<and>
         graph s < length (fst (snd (run (h, s) cs))) \<and>
         fst (snd (run (h, s) cs)) ! graph s = h ! graph s \<and>
         take (length h) (fst (snd (run (h, s) cs))) = h"
proof -
  obtain rs h' s' where r: "run (h, s) cs = (rs, h', s')" by (cases "run (h, s) cs")
  from run_frame [OF r] have f: "graph s' = graph s" "length h \<le> length h'" "take (length h) h' = h"
    by simp_all
  have "h' ! graph s = take (length h) h' ! graph s" using assms by simp
  with f assms r show ?thesis by simp
qed

theorem original_graph_never_mutated_witness:
  "graph armed_attacker < length [example_graph] \<and>
   fst (snd (run ([example_graph], armed_attacker)
     [CallG 1 True, CallReset, CallAttack (Count 2) 1, CallG 1 False])) ! graph armed_attacker = example_graph"
proof -
  have h: "graph armed_attacker < length [example_graph]"
    by (simp add: armed_attacker_def)
  have "[example_graph] ! graph armed_attacker = example_graph"
    by (simp add: armed_attacker_def)
  with original_graph_never_mutated [OF h, of "[CallG 1 True, CallReset, CallAttack (Count 2) 1, CallG 1 False]"] h
  show ?thesis by simp
qed

text \<open>The outcomes of that call sequence: the last \<open>g\<close> finds no trigger after the reset.\<close>

lemma example_run:
  "fst (run ([example_graph], armed_attacker)
     [CallG 1 True, CallReset, CallAttack (Count 2) 1, CallG 1 False]) = [None, None, None, Some AttributeError]"
  by (simp add: step_def g_def local_var_def clone_def add_nodes_def add_node_def add_edges_def add_edge_def
      example_graph_def armed_attacker_def trigger_def reset_def attack_def check_budget_def resolve_budget_def
      LongTensor_def to_device_def int64_def)

text \<open>A target beyond the new node is not a node of the attacked graph: the edit is refused.\<close>

lemma g_out_of_range:
  assumes "attacker_ok h s" "trigger s = Some t" "length t = num_feats s" "num_nodes s < target_node"
  shows "fst (g h s target_node symmetric) = Inl InvalidNodeId"
  using assms
  by (auto simp: g_def local_var_def clone_def attacker_ok_def add_nodes_def add_node_def
        add_edges_def add_edge_def nth_append)

subsection \<open>Attacks along a call sequence\<close>

lemma length_run: "length (fst (run cfg cs)) = length cs"
  by (induction cs arbitrary: cfg) (simp_all add: case_prod_beta)

lemma run_Cons_outcomes:
  "fst (run cfg (c # cs)) = fst (step cfg c) # fst (run (snd (step cfg c)) cs)"
  by (simp add: case_prod_beta)

lemma step_attack_outcome:
  "fst (step (h, s) (CallAttack nb tc)) = fst (attack s nb tc)"
  "snd (step (h, s) (CallAttack nb tc)) = (h, snd (attack s nb tc))"
  by (simp_all add: step_def split: prod.splits)

lemma step_keeps_unreset:
  assumes "\<not> is_reseted s" and "c \<noteq> CallReset"
  shows "\<not> is_reseted (snd (snd (step (h, s) c)))"
  using assms
  by (cases c) (auto simp: step_def attack_not_reseted split: prod.splits sum.splits)

lemma unreset_attack_fails_later:
  assumes "\<not> is_reseted s" and "j < length cs" and "\<forall>k<j. cs ! k \<noteq> CallReset"
    and "cs ! j = CallAttack nb tc"
  shows "fst (run (h, s) cs) ! j = Some NotReadyError"
  using assms
proof (induction cs arbitrary: j h s)
  case Nil
  then show ?case by simp
next
  case (Cons c cs)
  show ?case
  proof (cases j)
    case 0
    with Cons.prems show ?thesis
      by (simp add: run_Cons_outcomes step_attack_outcome attack_not_reseted del: run.simps)
  next
    case (Suc j')
    from Cons.prems(3) Suc have c: "c \<noteq> CallReset" by auto
    obtain h1 s1 where st: "snd (step (h, s) c) = (h1, s1)" by (cases "snd (step (h, s) c)")
    from step_keeps_unreset [OF Cons.prems(1) c, of h] st have u: "\<not> is_reseted s1" by simp
    from Cons.prems Suc have a: "j' < length cs" "\<forall>k<j'. cs ! k \<noteq> CallReset" "cs ! j' = CallAttack nb tc"
      by auto
    from Cons.IH [OF u a] Suc st show ?thesis
      by (simp add: run_Cons_outcomes del: run.simps)
  qed
qed

lemma reset_between_attacks:
  assumes "i < j" and "j < length cs"
    and "cs ! i = CallAttack nb tc" and "cs ! j = CallAttack nb' tc'"
    and "fst (run (h, s) cs) ! i = None" and "fst (run (h, s) cs) ! j = None"
  shows "\<exists>k. i < k \<and> k < j \<and> cs ! k = CallReset"
  using assms
proof (induction cs arbitrary: i j h s)
  case Nil
  then show ?case by simp
next
  case (Cons c cs)
  obtain j' where j: "j = Suc j'" using Cons.prems(1) by (cases j) auto
  obtain h1 s1 where st: "snd (step (h, s) c) = (h1, s1)" by (cases "snd (step (h, s) c)")
  show ?case
  proof (cases i)
    case 0
    with Cons.prems have c: "c = CallAttack nb tc" and ok: "fst (attack s nb tc) = None"
      by (simp_all add: run_Cons_outcomes step_attack_outcome del: run.simps)
    from ok attack_cases [of s nb tc] have "\<not> is_reseted (snd (attack s nb tc))" by auto
    with st c have u: "\<not> is_reseted s1" by (simp add: step_attack_outcome)
    show ?thesis
    proof (rule ccontr)
      assume "\<not> ?thesis"
      with 0 j have nr: "\<forall>k<j'. cs ! k \<noteq> CallReset" by auto
      from Cons.prems j have a: "j' < length cs" "cs ! j' = CallAttack nb' tc'" by auto
      from unreset_attack_fails_later [OF u a(1) nr a(2), of h1] Cons.prems(6) j st
      show False by (simp add: run_Cons_outcomes del: run.simps)
    qed
  next
    case (Suc i')
    from Cons.prems Suc j st have
      "i' < j'" "j' < length cs" "cs ! i' = CallAttack nb tc" "cs ! j' = CallAttack nb' tc'"
      "fst (run (h1, s1) cs) ! i' = None" "fst (run (h1, s1) cs) ! j' = None"
      by (simp_all add: run_Cons_outcomes del: run.simps)
    from Cons.IH [OF this] obtain k where "i' < k" "k < j'" "cs ! k = CallReset" by blast
    with Suc j have "i < Suc k \<and> Suc k < j \<and> (c # cs) ! Suc k = CallReset" by simp
    then show ?thesis by blast
  qed
qed

text \<open>
  C6: no two attacks on one reset. After an \<open>attack\<close> that went through, another
  \<open>attack\<close> on the attacker it left, with any budget and class, fails with
  \<open>NotReadyError\<close>. Equivalently, in every sequence of calls, whatever the \<open>g\<close> calls
  and failed calls in it, between two attacks that went through there is a \<open>reset\<close>.
\<close>

theorem attack_twice_fails:
  "(fst (attack s nb tc) = None \<longrightarrow>
      fst (attack (snd (attack s nb tc)) nb' tc') = Some NotReadyError) \<and>
   (\<forall>i j. i < j \<and> j < length cs \<and>
      (\<exists>b c. cs ! i = CallAttack b c) \<and> (\<exists>b c. cs ! j = CallAttack b c) \<and>
      fst (run (h, s) cs) ! i = None \<and> fst (run (h, s) cs) ! j = None \<longrightarrow>
      (\<exists>k. i < k \<and> k < j \<and> cs ! k = CallReset))"
proof (intro conjI impI allI)
  assume "fst (attack s nb tc) = None"
  with attack_cases [of s nb tc]
  show "fst (attack (snd (attack s nb tc)) nb' tc') = Some NotReadyError"
    by (auto simp: attack_not_reseted)
next
  fix i j
  assume a: "i < j \<and> j < length cs \<and>
      (\<exists>b c. cs ! i = CallAttack b c) \<and> (\<exists>b c. cs ! j = CallAttack b c) \<and>
      fst (run (h, s) cs) ! i = None \<and> fst (run (h, s) cs) ! j = None"
  then obtain b c b' c' where "cs ! i = CallAttack b c" "cs ! j = CallAttack b' c'" by blast
  with a show "\<exists>k. i < k \<and> k < j \<and> cs ! k = CallReset"
    using reset_between_attacks [of i j cs b c b' c' h s] by blast
qed

lemma example_calls_outcomes:
  "fst (run ([example_graph], example_attacker) example_calls) =
     [None, None, Some AttributeError, None, None]"
  by (simp add: example_calls_def step_def g_def local_var_def clone_def trigger_def reset_def
      attack_def check_budget_def resolve_budget_def example_attacker_def
      LongTensor_def to_device_def int64_def)

theorem attack_twice_fails_witness:
  "fst (attack (reset example_attacker) (Count 2) 1) = None \<and>
   fst (attack (snd (attack (reset example_attacker) (Count 2) 1)) (Count 1) 0) = Some NotReadyError \<and>
   (1::nat) < 4 \<and> 4 < length example_calls \<and>
   example_calls ! 1 = CallAttack (Count 2) 1 \<and> example_calls ! 4 = CallAttack (Count 1) 0 \<and>
   fst (run ([example_graph], example_attacker) example_calls) ! 1 = None \<and>
   fst (run ([example_graph], example_attacker) example_calls) ! 4 = None \<and>
   (\<exists>k. 1 < k \<and> k < 4 \<and> example_calls ! k = CallReset)"
proof -
  have h: "fst (attack (reset example_attacker) (Count 2) 1) = None"
    by (simp add: example_attack_ok)
  have c: "4 < length example_calls" "example_calls ! 1 = CallAttack (Count 2) 1"
    "example_calls ! 4 = CallAttack (Count 1) 0"
    by (simp_all add: example_calls_def)
  have o: "fst (run ([example_graph], example_attacker) example_calls) ! 1 = None"
    "fst (run ([example_graph], example_attacker) example_calls) ! 4 = None"
    by (simp_all add: example_calls_outcomes)
  from attack_twice_fails [of "reset example_attacker" "Count 2" 1 "Count 1" 0 example_calls
      "[example_graph]"] h
  have "fst (attack (snd (attack (reset example_attacker) (Count 2) 1)) (Count 1) 0) = Some NotReadyError"
    by simp
  moreover
  from attack_twice_fails [of example_attacker "Count 2" 1 "Count 1" 0 example_calls "[example_graph]"]
  have "(1::nat) < 4 \<and> 4 < length example_calls \<and>
      (\<exists>b c. example_calls ! 1 = CallAttack b c) \<and> (\<exists>b c. example_calls ! 4 = CallAttack b c) \<and>
      fst (run ([example_graph], example_attacker) example_calls) ! 1 = None \<and>
      fst (run ([example_graph], example_attacker) example_calls) ! 4 = None \<longrightarrow>
      (\<exists>k. 1 < k \<and> k < 4 \<and> example_calls ! k = CallReset)"
    by blast
  with c o have "\<exists>k. 1 < k \<and> k < 4 \<and> example_calls ! k = CallReset"
    by simp
  ultimately show ?thesis using h c o by simp
qed

section \<open>Properties of the HSIC estimator\<close>

lemma hsic_dens_nonzero:
  "4 \<le> N \<Longrightarrow> hsic_den1 N \<noteq> 0 \<and> hsic_den2 N \<noteq> 0 \<and> hsic_den3 N \<noteq> 0"
  by (auto simp: hsic_den1_def hsic_den2_def hsic_den3_def)

lemma hsic_dens_zero:
  assumes "N \<le> 3"
  shows "hsic_den1 N = 0 \<or> hsic_den2 N = 0 \<or> hsic_den3 N = 0"
proof -
  from assms consider "N = 0" | "N = 1" | "N = 2" | "N = 3" by linarith
  then show ?thesis
    by cases (simp_all add: hsic_den1_def hsic_den2_def hsic_den3_def)
qed

lemma HSIC_finite:
  assumes "ncols K = nrows K" "nrows L = nrows K" "ncols L = nrows K" "4 \<le> nrows K"
  shows "\<exists>v. HSIC K L = Inr (Finite v)"
  using assms hsic_dens_nonzero [of "nrows K"]
  by (simp add: HSIC_def Let_def tensor_div_def)

lemma HSIC_undefined:
  assumes "ncols K = nrows K" "nrows L = nrows K" "ncols L = nrows K" "nrows K \<le> 3"
  shows "HSIC K L = Inl ZeroDivisionError \<or> HSIC K L = Inr NonFinite"
  using assms hsic_dens_zero [of "nrows K"]
  by (auto simp: HSIC_def Let_def tensor_div_def)

lemma kernel_shape: "nrows (kernel X) = nrows X" "ncols (kernel X) = nrows X"
  by (simp_all add: kernel_def fill_diagonal_def matmul_def tensor_t_def)

text \<open>
  C10: \<open>HSIC\<close> divides by \<open>(N - 1) * (N - 2)\<close>, by \<open>N - 2\<close> and by \<open>N * (N - 3)\<close>, \<open>N\<close> being
  the side of the square kernel matrices. With \<open>N \<ge> 4\<close> no denominator is zero and the
  result is a finite number; with \<open>N \<le> 3\<close> some denominator is zero and the result is a
  \<open>ZeroDivisionError\<close> or not finite. So the comparison of a feature batch of fewer than
  four rows divides by zero.
\<close>

theorem hsic_denominators:
  assumes "ncols K = nrows K" and "nrows L = nrows K" and "ncols L = nrows K"
  shows "(4 \<le> nrows K \<longrightarrow>
            hsic_den1 (nrows K) \<noteq> 0 \<and> hsic_den2 (nrows K) \<noteq> 0 \<and> hsic_den3 (nrows K) \<noteq> 0 \<and>
            (\<exists>v. HSIC K L = Inr (Finite v))) \<and>
         (nrows K \<le> 3 \<longrightarrow>
            (hsic_den1 (nrows K) = 0 \<or> hsic_den2 (nrows K) = 0 \<or> hsic_den3 (nrows K) = 0) \<and>
            (HSIC K L = Inl ZeroDivisionError \<or> HSIC K L = Inr NonFinite)) \<and>
         (nrows X < 4 \<longrightarrow>
            compare_self X = Inl ZeroDivisionError \<or> compare_self X = Inr NonFinite)"
proof (intro conjI impI)
  assume "4 \<le> nrows K"
  then show "hsic_den1 (nrows K) \<noteq> 0" "hsic_den2 (nrows K) \<noteq> 0" "hsic_den3 (nrows K) \<noteq> 0"
    using hsic_dens_nonzero [of "nrows K"] by simp_all
  show "\<exists>v. HSIC K L = Inr (Finite v)"
    using HSIC_finite [OF assms \<open>4 \<le> nrows K\<close>] .
next
  assume "nrows K \<le> 3"
  then show "hsic_den1 (nrows K) = 0 \<or> hsic_den2 (nrows K) = 0 \<or> hsic_den3 (nrows K) = 0"
    by (rule hsic_dens_zero)
  show "HSIC K L = Inl ZeroDivisionError \<or> HSIC K L = Inr NonFinite"
    using HSIC_undefined [OF assms \<open>nrows K \<le> 3\<close>] .
next
  assume "nrows X < 4"
  then have "nrows (kernel X) \<le> 3" by (simp add: kernel_shape)
  then show "compare_self X = Inl ZeroDivisionError \<or> compare_self X = Inr NonFinite"
    unfolding compare_self_def
    by (intro HSIC_undefined) (simp_all add: kernel_shape)
qed

theorem hsic_denominators_witness:
  "ncols (kernel (example_features 4)) = nrows (kernel (example_features 4)) \<and>
   4 \<le> nrows (kernel (example_features 4)) \<and>
   (\<exists>v. HSIC (kernel (example_features 4)) (kernel (example_features 4)) = Inr (Finite v)) \<and>
   ncols (kernel (example_features 3)) = nrows (kernel (example_features 3)) \<and>
   nrows (kernel (example_features 3)) \<le> 3 \<and>
   (HSIC (kernel (example_features 3)) (kernel (example_features 3)) = Inl ZeroDivisionError \<or>
    HSIC (kernel (example_features 3)) (kernel (example_features 3)) = Inr NonFinite) \<and>
   nrows (example_features 2) < 4 \<and>
   (compare_self (example_features 2) = Inl ZeroDivisionError \<or>
    compare_self (example_features 2) = Inr NonFinite)"
proof -
  have sq4: "ncols (kernel (example_features 4)) = nrows (kernel (example_features 4))"
    and sq3: "ncols (kernel (example_features 3)) = nrows (kernel (example_features 3))"
    by (simp_all add: kernel_shape)
  have n4: "nrows (kernel (example_features 4)) = 4"
    and n3: "nrows (kernel (example_features 3)) = 3"
    and n2: "nrows (example_features 2) = 2"
    by (simp_all add: kernel_shape example_features_def)
  from hsic_denominators [OF sq4 refl sq4, of "example_features 2"]
       hsic_denominators [OF sq3 refl sq3, of "example_features 2"]
       sq4 sq3 n4 n3 n2
  show ?thesis by simp
qed

text \<open>The two ways the small cases fail: three rows raise, two rows give a non-finite number.\<close>

lemma compare_self_examples:
  "compare_self (example_features 3) = Inl ZeroDivisionError"
  "compare_self (example_features 2) = Inr NonFinite"
  by (simp_all add: compare_self_def HSIC_def Let_def kernel_shape example_features_def
        hsic_den1_def hsic_den2_def hsic_den3_def tensor_div_def)

section \<open>Properties of the targeted structure attacker\<close>

lemma set_insert_ranked: "set (insert_ranked score v ws) = insert v (set ws)"
  by (induction ws) auto

lemma length_insert_ranked: "length (insert_ranked score v ws) = Suc (length ws)"
  by (induction ws) auto

lemma distinct_insert_ranked: "distinct (insert_ranked score v ws) \<longleftrightarrow> v \<notin> set ws \<and> distinct ws"
  by (induction ws) (auto simp: set_insert_ranked)

lemma set_rank: "set (rank score vs) = set vs"
  by (induction vs) (auto simp: set_insert_ranked)

lemma length_rank: "length (rank score vs) = length vs"
  by (induction vs) (auto simp: length_insert_ranked)

lemma distinct_rank: "distinct (rank score vs) \<longleftrightarrow> distinct vs"
  by (induction vs) (auto simp: distinct_insert_ranked set_rank)

lemma set_candidates: "set (candidates gr t) = {v. v < node_count gr \<and> v \<noteq> t}"
  by (auto simp: candidates_def)

lemma distinct_candidates: "distinct (candidates gr t)"
  by (simp add: candidates_def)

lemma eligible_count_eq: "t < node_count gr \<Longrightarrow> eligible_count gr t = node_count gr - 1"
proof -
  assume a: "t < node_count gr"
  have "eligible_count gr t = card (set (candidates gr t))"
    by (simp add: eligible_count_def distinct_card distinct_candidates)
  also have "set (candidates gr t) = {..<node_count gr} - {t}"
    by (auto simp: set_candidates)
  also have "card \<dots> = node_count gr - 1"
    using a by simp
  finally show ?thesis .
qed

lemma flip_ok:
  assumes "u < node_count gr" "v < node_count gr"
  shows "\<exists>gr'. flip gr u v = Inr gr' \<and> node_count gr' = node_count gr \<and>
           edges gr' = (edges gr - {(u, v)}) \<union> ({(u, v)} - edges gr)"
  using assms by (auto simp: flip_def add_edge_def remove_edge_def)

lemma commit_all:
  assumes "t < node_count (working s)"
    and "\<forall>v \<in> set vs. v < node_count (working s)"
    and "distinct vs"
    and "spent (budget_ledger s) + length vs \<le> max_budget (budget_ledger s)"
  shows "fst (commit t s vs) = None \<and>
         node_count (working (snd (commit t s vs))) = node_count (working s) \<and>
         edges (working (snd (commit t s vs))) =
           (edges (working s) - Pair t ` set vs) \<union> (Pair t ` set vs - edges (working s)) \<and>
         spent (budget_ledger (snd (commit t s vs))) = spent (budget_ledger s) + length vs \<and>
         max_budget (budget_ledger (snd (commit t s vs))) = max_budget (budget_ledger s) \<and>
         flips (snd (commit t s vs)) = flips s @ map (Pair t) vs \<and>
         status (snd (commit t s vs)) = status s \<and>
         original (snd (commit t s vs)) = original s"
  using assms
proof (induction vs arbitrary: s)
  case Nil
  then show ?case by simp
next
  case (Cons v vs)
  from Cons.prems have v: "v < node_count (working s)" and nv: "v \<notin> set vs" by simp_all
  from flip_ok [OF Cons.prems(1) v] obtain gr' where
    fl: "flip (working s) t v = Inr gr'" and nc: "node_count gr' = node_count (working s)"
    and ed: "edges gr' = (edges (working s) - {(t, v)}) \<union> ({(t, v)} - edges (working s))"
    by blast
  define l' where "l' = (budget_ledger s)\<lparr>spent := spent (budget_ledger s) + 1\<rparr>"
  have rs: "reserve (budget_ledger s) 1 = Inr l'"
    using Cons.prems(4) by (simp add: reserve_def l'_def)
  define s1 where "s1 = s\<lparr>working := gr', budget_ledger := l', flips := flips s @ [(t, v)]\<rparr>"
  have step: "commit t s (v # vs) = commit t s1 vs"
    using rs fl by (simp add: s1_def)
  have p1: "t < node_count (working s1)" using Cons.prems(1) nc by (simp add: s1_def)
  have p2: "\<forall>v \<in> set vs. v < node_count (working s1)" using Cons.prems(2) nc by (simp add: s1_def)
  have p3: "distinct vs" using Cons.prems(3) by simp
  have p4: "spent (budget_ledger s1) + length vs \<le> max_budget (budget_ledger s1)"
    using Cons.prems(4) by (simp add: s1_def l'_def)
  note ih = Cons.IH [OF p1 p2 p3 p4]
  have e1: "edges (working s1) = (edges (working s) - {(t, v)}) \<union> ({(t, v)} - edges (working s))"
    by (simp add: s1_def ed)
  have tv: "(t, v) \<notin> Pair t ` set vs" using nv by auto
  have edges_eq:
    "(edges (working s1) - Pair t ` set vs) \<union> (Pair t ` set vs - edges (working s1)) =
     (edges (working s) - Pair t ` set (v # vs)) \<union> (Pair t ` set (v # vs) - edges (working s))"
    unfolding e1 using tv by auto
  show ?case
    unfolding step using ih edges_eq
    by (simp add: s1_def l'_def nc)
qed


lemma targeted_attack_run:
  assumes t: "t < node_count (original s0)" and B: "0 < B"
  shows "fst (targeted_attack (targeted_reset s0) t B score) = None \<and>
         status (snd (targeted_attack (targeted_reset s0) t B score)) = Done \<and>
         original (snd (targeted_attack (targeted_reset s0) t B score)) = original s0 \<and>
         flips (snd (targeted_attack (targeted_reset s0) t B score)) =
           map (Pair t) (take B (rank score (candidates (original s0) t))) \<and>
         spent (budget_ledger (snd (targeted_attack (targeted_reset s0) t B score))) =
           min B (eligible_count (original s0) t) \<and>
         edge_diff (original s0) (working (snd (targeted_attack (targeted_reset s0) t B score))) =
           Pair t ` set (take B (rank score (candidates (original s0) t)))"
proof -
  define s1 where
    "s1 = (targeted_reset s0)\<lparr>budget_ledger := \<lparr>max_budget = B, spent = 0\<rparr>, status := InProgress\<rparr>"
  define vs where "vs = take B (rank score (candidates (original s0) t))"
  have w: "working s1 = original s0" and fl: "flips s1 = []" and o: "original s1 = original s0"
    by (simp_all add: s1_def targeted_reset_def clone_def)
  have p1: "t < node_count (working s1)" using t w by simp
  have "set vs \<subseteq> set (candidates (original s0) t)"
    unfolding vs_def using set_take_subset [of B "rank score (candidates (original s0) t)"]
    by (simp add: set_rank)
  then have p2: "\<forall>v \<in> set vs. v < node_count (working s1)"
    unfolding w by (auto simp: set_candidates)
  have p3: "distinct vs"
    unfolding vs_def by (simp add: distinct_rank distinct_candidates)
  have len: "length vs = min B (eligible_count (original s0) t)"
    by (simp add: vs_def length_rank eligible_count_def min.commute)
  have p4: "spent (budget_ledger s1) + length vs \<le> max_budget (budget_ledger s1)"
    by (simp add: s1_def len)
  note c = commit_all [OF p1 p2 p3 p4]
  have ta: "targeted_attack (targeted_reset s0) t B score =
              (None, (snd (commit t s1 vs))\<lparr>status := Done\<rparr>)"
  proof -
    obtain r s' where cs: "commit t s1 vs = (r, s')" by (cases "commit t s1 vs")
    with c have "r = None" by simp
    with cs t B show ?thesis
      by (simp add: targeted_attack_def s1_def vs_def targeted_reset_def clone_def)
  qed
  have ed: "edge_diff (original s0) (working (snd (commit t s1 vs))) = Pair t ` set vs"
    using c unfolding edge_diff_def w by auto
  have sp: "spent (budget_ledger s1) = 0"
    by (simp add: s1_def)
  from c have c1: "flips (snd (commit t s1 vs)) = map (Pair t) vs"
    and c2: "spent (budget_ledger (snd (commit t s1 vs))) = length vs"
    and c3: "original (snd (commit t s1 vs)) = original s0"
    by (simp_all add: fl sp o)
  have "fst (targeted_attack (targeted_reset s0) t B score) = None \<and>
        status (snd (targeted_attack (targeted_reset s0) t B score)) = Done \<and>
        original (snd (targeted_attack (targeted_reset s0) t B score)) = original s0 \<and>
        flips (snd (targeted_attack (targeted_reset s0) t B score)) = map (Pair t) vs \<and>
        spent (budget_ledger (snd (targeted_attack (targeted_reset s0) t B score))) =
          min B (eligible_count (original s0) t) \<and>
        edge_diff (original s0) (working (snd (targeted_attack (targeted_reset s0) t B score))) =
          Pair t ` set vs"
    unfolding ta by (simp add: c1 c2 c3 ed len)
  then show ?thesis
    unfolding vs_def .
qed

lemma targeted_attack_empty_fields:
  "flips (snd (targeted_attack (targeted_reset s0) t 0 score)) = []"
  "spent (budget_ledger (snd (targeted_attack (targeted_reset s0) t 0 score))) = 0"
  "edge_diff (original s0) (working (snd (targeted_attack (targeted_reset s0) t 0 score))) = {}"
  by (simp_all add: targeted_attack_def targeted_reset_def edge_diff_def clone_def)

lemma targeted_attack_empty_budget:
  "targeted_attack (targeted_reset s0) t 0 score = (Some EmptyBudget, targeted_reset s0)"
  by (simp add: targeted_attack_def targeted_reset_def)

lemma card_chosen:
  "card (Pair t ` set (take B (rank score (candidates gr t)))) = min B (eligible_count gr t)"
proof -
  have d: "distinct (take B (rank score (candidates gr t)))"
    by (simp add: distinct_rank distinct_candidates)
  have "card (Pair t ` set (take B (rank score (candidates gr t)))) =
        card (set (take B (rank score (candidates gr t))))"
    by (intro card_image) (simp add: inj_on_def)
  also have "\<dots> = length (take B (rank score (candidates gr t)))"
    using d by (rule distinct_card)
  finally show ?thesis
    by (simp add: length_rank eligible_count_def min.commute)
qed

text \<open>
  C9: for every graph and every target node of it, the targeted attacker run with budget
  \<open>B\<close> on a reset session commits exactly \<open>B\<close> flips, with \<open>spent = B\<close>, when \<open>B\<close>
  is at most the number of eligible candidates; the attacked graph then differs from the
  input graph in exactly \<open>B\<close> edges. When \<open>B\<close> exceeds that number it commits every
  eligible candidate and finishes without an error, done, with \<open>spent\<close> equal to the
  number of candidates and below \<open>B\<close>.
\<close>

theorem targeted_attack_spends_budget:
  assumes "t < node_count (original s0)"
  shows "let R = targeted_attack (targeted_reset s0) t B score;
             n = eligible_count (original s0) t
         in (B \<le> n \<longrightarrow>
               length (flips (snd R)) = B \<and>
               spent (budget_ledger (snd R)) = B \<and>
               card (edge_diff (original s0) (working (snd R))) = B) \<and>
            (n < B \<longrightarrow>
               fst R = None \<and> status (snd R) = Done \<and>
               set (flips (snd R)) = Pair t ` set (candidates (original s0) t) \<and>
               length (flips (snd R)) = n \<and>
               spent (budget_ledger (snd R)) = n \<and>
               spent (budget_ledger (snd R)) < B \<and>
               card (edge_diff (original s0) (working (snd R))) = n) \<and>
            (0 < B \<longrightarrow> fst R = None \<and> status (snd R) = Done)"
proof (cases "B = 0")
  case True
  then show ?thesis
    by (simp add: Let_def targeted_attack_empty_fields)
next
  case False
  then have B: "0 < B" by simp
  note r = targeted_attack_run [OF assms B, of score]
  have full: "eligible_count (original s0) t < B \<Longrightarrow>
      take B (rank score (candidates (original s0) t)) = rank score (candidates (original s0) t)"
    by (simp add: eligible_count_def length_rank)
  show ?thesis
    unfolding Let_def
    using r card_chosen [of t B score "original s0"] full
    by (auto simp: length_rank eligible_count_def set_rank min_def)
qed

theorem targeted_attack_spends_budget_witness:
  "1 < node_count (original example_session) \<and>
   eligible_count (original example_session) 1 = 2 \<and>
   spent (budget_ledger (snd (targeted_attack (targeted_reset example_session) 1 2 (\<lambda>v. real v)))) = 2 \<and>
   length (flips (snd (targeted_attack (targeted_reset example_session) 1 2 (\<lambda>v. real v)))) = 2 \<and>
   fst (targeted_attack (targeted_reset example_session) 1 5 (\<lambda>v. real v)) = None \<and>
   spent (budget_ledger (snd (targeted_attack (targeted_reset example_session) 1 5 (\<lambda>v. real v)))) = 2"
proof -
  have h: "1 < node_count (original example_session)"
    by (simp add: example_session_def example_graph_def)
  have n: "eligible_count (original example_session) 1 = 2"
    using eligible_count_eq [OF h] by (simp add: example_session_def example_graph_def)
  from targeted_attack_spends_budget [OF h, of 2 "\<lambda>v. real v"]
       targeted_attack_spends_budget [OF h, of 5 "\<lambda>v. real v"] h n
  show ?thesis by (simp add: Let_def)
qed

end
